theory Spec2Isabelle
  imports Main "HOL-Library.Log_Nat" "HOL-Library.Code_Target_Nat"
begin

section \<open>Text: Python strings as lists of code points\<close>

text \<open>
  A Python \<open>str\<close> is a sequence of Unicode code points, and the program's regular
  expressions and string methods classify characters by code point. A character is
  therefore modelled by its code point, a text by the list of its code points.
  ASCII literals of the source are written with \<open>u\<close>; the seven non-ASCII letters
  of the source (U+00C4, U+00E4, U+00D6, U+00F6, U+00DC, U+00FC, U+00DF) appear by number.
\<close>

type_synonym uchar = nat
type_synonym ustring = "nat list"

definition u :: "string \<Rightarrow> ustring" where
  "u s = map of_char s"

text \<open>
  \<open>str.isspace\<close>, \<open>str.strip\<close>, \<open>str.split\<close> and the pattern \<open>\s\<close> all use the same
  predicate on a code point (CPython's \<open>Py_UNICODE_ISSPACE\<close>); these are the 29 code
  points for which it holds.
\<close>

definition is_space :: "uchar \<Rightarrow> bool" where
  "is_space c = (c \<in> set [0x9, 0xA, 0xB, 0xC, 0xD, 0x1C, 0x1D, 0x1E, 0x1F, 0x20, 0x85, 0xA0,
     0x1680, 0x2000, 0x2001, 0x2002, 0x2003, 0x2004, 0x2005, 0x2006, 0x2007, 0x2008, 0x2009,
     0x200A, 0x2028, 0x2029, 0x202F, 0x205F, 0x3000])"

text \<open>
  The pattern \<open>\d\<close> of a \<open>str\<close> pattern matches every character of Unicode category Nd,
  and \<open>float\<close> reads each of them as its digit value. The decimal digits come in runs
  of ten consecutive code points with the values 0 to 9; \<open>nd_bases\<close> lists the first
  code point of each run (Unicode 14.0.0, 66 runs, the table of the \<open>unicodedata\<close>
  module of CPython 3.11).
\<close>

definition nd_bases :: "uchar list" where
  "nd_bases = [0x30, 0x660, 0x6F0, 0x7C0, 0x966, 0x9E6, 0xA66, 0xAE6, 0xB66, 0xBE6, 0xC66,
     0xCE6, 0xD66, 0xDE6, 0xE50, 0xED0, 0xF20, 0x1040, 0x1090, 0x17E0, 0x1810, 0x1946,
     0x19D0, 0x1A80, 0x1A90, 0x1B50, 0x1BB0, 0x1C40, 0x1C50, 0xA620, 0xA8D0, 0xA900,
     0xA9D0, 0xA9F0, 0xAA50, 0xABF0, 0xFF10, 0x104A0, 0x10D30, 0x11066, 0x110F0, 0x11136,
     0x111D0, 0x112F0, 0x11450, 0x114D0, 0x11650, 0x116C0, 0x11730, 0x118E0, 0x11950,
     0x11C50, 0x11D50, 0x11DA0, 0x16A60, 0x16AC0, 0x16B50, 0x1D7CE, 0x1D7D8, 0x1D7E2,
     0x1D7EC, 0x1D7F6, 0x1E140, 0x1E2F0, 0x1E950, 0x1FBF0]"

definition in_run :: "uchar \<Rightarrow> uchar \<Rightarrow> bool" where
  "in_run c b = (b \<le> c \<and> c < b + 10)"

definition is_decimal :: "uchar \<Rightarrow> bool" where
  "is_decimal c = list_ex (in_run c) nd_bases"

definition digit_value :: "uchar \<Rightarrow> int" where
  "digit_value c = (case find (in_run c) nd_bases of Some b \<Rightarrow> int (c - b) | None \<Rightarrow> 0)"

definition is_ascii_digit :: "uchar \<Rightarrow> bool" where
  "is_ascii_digit c = (0x30 \<le> c \<and> c \<le> 0x39)"

subsection \<open>String methods\<close>

text \<open>\<open>s.strip()\<close>: whitespace removed at both ends.\<close>

definition strip :: "ustring \<Rightarrow> ustring" where
  "strip s = rev (dropWhile is_space (rev (dropWhile is_space s)))"

text \<open>\<open>s.split()\<close>: the maximal runs of non-whitespace characters, in order.\<close>

fun split_acc :: "ustring \<Rightarrow> ustring \<Rightarrow> ustring list" where
  "split_acc w [] = (if w = [] then [] else [w])"
| "split_acc w (c # cs) =
     (if is_space c then (if w = [] then split_acc [] cs else w # split_acc [] cs)
      else split_acc (w @ [c]) cs)"

definition split :: "ustring \<Rightarrow> ustring list" where
  "split s = split_acc [] s"

text \<open>\<open>s.isspace()\<close>: at least one character, and all of them whitespace.\<close>

definition isspace :: "ustring \<Rightarrow> bool" where
  "isspace s = (s \<noteq> [] \<and> list_all is_space s)"

definition startswith :: "ustring \<Rightarrow> ustring \<Rightarrow> bool" where
  "startswith s t = (take (length t) s = t)"

definition endswith :: "ustring \<Rightarrow> ustring \<Rightarrow> bool" where
  "endswith s t = (length t \<le> length s \<and> drop (length s - length t) s = t)"

text \<open>\<open>t in s\<close> on strings: \<open>t\<close> occurs in \<open>s\<close> as a contiguous substring.\<close>

fun contains :: "ustring \<Rightarrow> ustring \<Rightarrow> bool" where
  "contains [] t = (t = [])"
| "contains (c # cs) t = (startswith (c # cs) t \<or> contains cs t)"

text \<open>\<open>s.replace(c, t)\<close> for a single character \<open>c\<close>.\<close>

definition replace_chr :: "uchar \<Rightarrow> ustring \<Rightarrow> ustring \<Rightarrow> ustring" where
  "replace_chr c t s = concat (map (\<lambda>x. if x = c then t else [x]) s)"

text \<open>
  \<open>s[i:j]\<close>: a negative index counts from the end, and both indices are clipped to
  the string. The program computes \<open>text[pos-2:pos]\<close>, whose first index is negative
  for \<open>pos = 1\<close>.
\<close>

definition clip :: "nat \<Rightarrow> int \<Rightarrow> nat" where
  "clip n i = (if i < 0 then nat (max 0 (int n + i)) else min n (nat i))"

definition py_slice :: "'a list \<Rightarrow> int \<Rightarrow> int \<Rightarrow> 'a list" where
  "py_slice s i j = (let a = clip (length s) i; b = clip (length s) j in take (b - a) (drop a s))"

text \<open>\<open>xs[-1]\<close> raises IndexError on the empty list.\<close>

datatype error = IndexError | OverflowError | ValueError | ZeroDivisionError

definition last_item :: "'a list \<Rightarrow> error + 'a" where
  "last_item xs = (if xs = [] then Inl IndexError else Inr (last xs))"

section \<open>Regular expressions: the backtracking matcher of \<open>re\<close>\<close>

text \<open>
  The constructs the program's four patterns use: a literal character, the classes
  \<open>\d\<close> and \<open>\s\<close>, a bracket class given by its inclusive ranges, sequence,
  alternation (the left branch is tried first), and the greedy star. \<open>a+\<close> is
  \<open>a a*\<close> and \<open>a?\<close> is \<open>a|\<close> (greedy: \<open>a\<close> is tried first).
\<close>

datatype re =
    Chr uchar
  | Digit
  | Space
  | Class "(uchar \<times> uchar) list"
  | Eps
  | Seq re re
  | Alt re re
  | Star re

definition plus :: "re \<Rightarrow> re" where
  "plus a = Seq a (Star a)"

definition opt :: "re \<Rightarrow> re" where
  "opt a = Alt a Eps"

definition lit :: "ustring \<Rightarrow> re" where
  "lit cs = foldr (\<lambda>c r. Seq (Chr c) r) cs Eps"

definition in_class :: "(uchar \<times> uchar) list \<Rightarrow> uchar \<Rightarrow> bool" where
  "in_class rs c = list_ex (\<lambda>(lo, hi). lo \<le> c \<and> c \<le> hi) rs"

fun one :: "(uchar \<Rightarrow> bool) \<Rightarrow> ustring \<Rightarrow> (ustring \<times> ustring) list" where
  "one P [] = []"
| "one P (c # cs) = (if P c then [([c], cs)] else [])"

text \<open>
  \<open>parts r s\<close> lists every way \<open>r\<close> matches a prefix of \<open>s\<close>, as (matched prefix,
  rest), in the order in which the backtracking matcher tries them: the first entry
  is the match \<open>re\<close> reports, the later ones are what it falls back to when the
  continuation of the pattern fails. The star only iterates when its body has
  consumed a character; no star body of the program can match the empty string.
\<close>

function parts :: "re \<Rightarrow> ustring \<Rightarrow> (ustring \<times> ustring) list" where
  "parts (Chr c) s = one (\<lambda>x. x = c) s"
| "parts Digit s = one is_decimal s"
| "parts Space s = one is_space s"
| "parts (Class rs) s = one (in_class rs) s"
| "parts Eps s = [([], s)]"
| "parts (Seq a b) s =
     concat (map (\<lambda>(p1, s1). map (\<lambda>(p2, s2). (p1 @ p2, s2)) (parts b s1)) (parts a s))"
| "parts (Alt a b) s = parts a s @ parts b s"
| "parts (Star a) s =
     concat (map (\<lambda>(p1, s1). if length s1 < length s
                   then map (\<lambda>(p2, s2). (p1 @ p2, s2)) (parts (Star a) s1) else [])
                 (parts a s))
     @ [([], s)]"
  by pat_completeness auto
termination
  by (relation "measure size <*lex*> measure length") auto

declare parts.simps(8) [simp del]

text \<open>
  A pattern with capture groups is a list of segments matched one after the other;
  \<open>match_groups\<close> returns, again in backtracking order, the text of each segment.
\<close>

fun match_groups :: "re list \<Rightarrow> ustring \<Rightarrow> (ustring list \<times> ustring) list" where
  "match_groups [] s = [([], s)]"
| "match_groups (r # rs) s =
     concat (map (\<lambda>(p, s1). map (\<lambda>(ps, s2). (p # ps, s2)) (match_groups rs s1)) (parts r s))"

text \<open>\<open>re.match(r, s)\<close>: the first way to match at the start of \<open>s\<close>, if any.\<close>

definition re_match :: "re \<Rightarrow> ustring \<Rightarrow> ustring option" where
  "re_match r s = (case parts r s of [] \<Rightarrow> None | (p, _) # _ \<Rightarrow> Some p)"

definition match_at :: "re list \<Rightarrow> ustring \<Rightarrow> ustring list option" where
  "match_at rs s = (case match_groups rs s of [] \<Rightarrow> None | (ps, _) # _ \<Rightarrow> Some ps)"

text \<open>A match object: \<open>start()\<close>, \<open>end()\<close> and the text of every segment.\<close>

record rmatch =
  m_start :: nat
  m_end :: nat
  m_pieces :: "ustring list"

definition group0 :: "rmatch \<Rightarrow> ustring" where
  "group0 m = concat (m_pieces m)"

text \<open>
  \<open>re.finditer\<close>: the leftmost match, then the leftmost match after its end, and so
  on. \<open>s\<close> is the text from offset \<open>pos\<close> on. After an empty match the scan moves on
  by one character (neither pattern of the program can match the empty string).
\<close>

function finditer :: "re list \<Rightarrow> nat \<Rightarrow> ustring \<Rightarrow> rmatch list" where
  "finditer rs pos s =
     (case match_at rs s of
        None \<Rightarrow> (if s = [] then [] else finditer rs (pos + 1) (tl s))
      | Some ps \<Rightarrow>
          (let n = length (concat ps);
               m = \<lparr>m_start = pos, m_end = pos + n, m_pieces = ps\<rparr>
           in if s = [] then [m] else m # finditer rs (pos + max 1 n) (drop (max 1 n) s)))"
  by pat_completeness auto
termination
  by (relation "measure (\<lambda>(rs, pos, s). length s)") auto

declare finditer.simps [simp del]

section \<open>Numbers: Python floats and integers\<close>

text \<open>
  A Python \<open>float\<close> is an IEEE 754 binary64 number. The patterns carry no sign, so
  every float of the program is non-negative: a finite one is modelled by the
  rational number it denotes, and \<open>Infinity\<close> is what a conversion that overflows
  returns. \<open>to_double\<close> rounds a non-negative rational to the nearest binary64 number,
  ties to the even significand, as \<open>float\<close> and the division of floats do: with \<open>e\<close>
  the binary exponent of \<open>q\<close> (at least -1022, where the subnormal numbers begin), the
  result is the multiple of \<open>2^(e-52)\<close> nearest to \<open>q\<close>, and infinity when that is
  \<open>2^1024\<close> or more.
\<close>

datatype pyfloat = Finite rat | Infinity

definition round_half_even :: "rat \<Rightarrow> int" where
  "round_half_even x =
     (let f = \<lfloor>x\<rfloor>; d = x - of_int f
      in if d < 1 / 2 then f else if 1 / 2 < d then f + 1 else if even f then f else f + 1)"

definition pow2 :: "int \<Rightarrow> rat" where
  "pow2 e = (if 0 \<le> e then of_int (2 ^ nat e) else 1 / of_int (2 ^ nat (- e)))"

text \<open>The exponent \<open>e\<close> with \<open>2^e \<le> q < 2^(e+1)\<close>, for \<open>q > 0\<close>.\<close>

definition floor_log2 :: "rat \<Rightarrow> int" where
  "floor_log2 q =
     (let (a, b) = quotient_of q; d = bitlen a - bitlen b
      in if pow2 d \<le> q then d else d - 1)"

definition to_double :: "rat \<Rightarrow> pyfloat" where
  "to_double q =
     (if q \<le> 0 then Finite 0
      else let e = max (floor_log2 q) (- 1022)
           in if 1024 \<le> e then Infinity
              else let ulp = pow2 (e - 52);
                       m = round_half_even (q / ulp)
                   in if e = 1023 \<and> m = 2 ^ 53 then Infinity
                      else Finite (of_int m * ulp))"

text \<open>Comparison of a float with an integer or float literal of the source.\<close>

fun f_lt :: "pyfloat \<Rightarrow> rat \<Rightarrow> bool" where
  "f_lt (Finite x) c = (x < c)"
| "f_lt Infinity c = False"

fun f_le :: "pyfloat \<Rightarrow> rat \<Rightarrow> bool" where
  "f_le (Finite x) c = (x \<le> c)"
| "f_le Infinity c = False"

fun f_eq :: "pyfloat \<Rightarrow> rat \<Rightarrow> bool" where
  "f_eq (Finite x) c = (x = c)"
| "f_eq Infinity c = False"

definition f_gt :: "pyfloat \<Rightarrow> rat \<Rightarrow> bool" where
  "f_gt x c = (\<not> f_le x c)"

definition f_ge :: "pyfloat \<Rightarrow> rat \<Rightarrow> bool" where
  "f_ge x c = (\<not> f_lt x c)"

text \<open>\<open>round(x)\<close> of a float: the nearest integer, ties to even; infinity raises.\<close>

fun py_round :: "pyfloat \<Rightarrow> error + int" where
  "py_round (Finite x) = Inr (round_half_even x)"
| "py_round Infinity = Inl OverflowError"

text \<open>
  \<open>x / m\<close> for a float \<open>x\<close> and an integer \<open>m\<close>: the integer is converted to a float
  (which raises when it is too large), then the quotient is rounded to a float.
\<close>

definition py_truediv :: "pyfloat \<Rightarrow> int \<Rightarrow> error + pyfloat" where
  "py_truediv x m =
     (case to_double (of_int m) of
        Infinity \<Rightarrow> Inl OverflowError
      | Finite d \<Rightarrow>
          if d = 0 then Inl ZeroDivisionError
          else (case x of Infinity \<Rightarrow> Inr Infinity | Finite a \<Rightarrow> Inr (to_double (a / d))))"

text \<open>
  \<open>float(s)\<close> on the strings the program passes to it: decimal digits with at most
  one point. The digits may be any Unicode decimal digits. The result is the
  binary64 number nearest to the decimal value. Any other string is reported as
  ValueError (the further forms \<open>float\<close> accepts, such as signs, exponents and
  surrounding whitespace, cannot come out of the program's patterns).
\<close>

definition digits_value :: "ustring \<Rightarrow> int" where
  "digits_value ds = foldl (\<lambda>a c. 10 * a + digit_value c) 0 ds"

definition py_float :: "ustring \<Rightarrow> error + pyfloat" where
  "py_float s =
     (let ip = takeWhile (\<lambda>c. c \<noteq> 0x2E) s;
          fp = drop 1 (dropWhile (\<lambda>c. c \<noteq> 0x2E) s)
      in if ip @ fp \<noteq> [] \<and> list_all is_decimal (ip @ fp)
         then Inr (to_double (of_int (digits_value (ip @ fp)) / 10 ^ length fp))
         else Inl ValueError)"

text \<open>\<open>str(n)\<close> of an integer.\<close>

fun str_nat :: "nat \<Rightarrow> ustring" where
  "str_nat n = (if n < 10 then [0x30 + n] else str_nat (n div 10) @ [0x30 + n mod 10])"

declare str_nat.simps [simp del]

definition str_int :: "int \<Rightarrow> ustring" where
  "str_int i = (if i < 0 then 0x2D # str_nat (nat (- i)) else str_nat (nat i))"

text \<open>
  \<open>f"{n:,}"\<close> of an integer: the digits in groups of three from the right, separated
  by commas.
\<close>

definition pad3 :: "nat \<Rightarrow> ustring" where
  "pad3 n = [0x30 + n div 100 mod 10, 0x30 + n div 10 mod 10, 0x30 + n mod 10]"

fun group_nat :: "nat \<Rightarrow> ustring" where
  "group_nat n = (if n < 1000 then str_nat n else group_nat (n div 1000) @ 0x2C # pad3 (n mod 1000))"

declare group_nat.simps [simp del]

definition format_comma :: "int \<Rightarrow> ustring" where
  "format_comma i = (if i < 0 then 0x2D # group_nat (nat (- i)) else group_nat (nat i))"

text \<open>
  \<open>f"{x:,.0f}"\<close> of a float: the float rounded to an integer (ties to even) and
  written with grouping commas; \<open>inf\<close> for infinity.
\<close>

fun format_comma_0f :: "pyfloat \<Rightarrow> ustring" where
  "format_comma_0f (Finite x) = format_comma (round_half_even x)"
| "format_comma_0f Infinity = [0x69, 0x6E, 0x66]"

section \<open>The program\<close>

subsection \<open>The helpers of \<open>simplify_numbers\<close>\<close>

definition convert_german_number :: "ustring \<Rightarrow> error + pyfloat" where
  "convert_german_number number_str =
     (let clean_num = replace_chr 0x2C [0x2E] (replace_chr 0x2E [] number_str)
      in py_float clean_num)"

definition format_german_number :: "int \<Rightarrow> bool \<Rightarrow> ustring" where
  "format_german_number number is_count =
     (if \<not> is_count then str_int number
      else if 1000 \<le> number then replace_chr 0x2C [0x2E] (format_comma number)
      else str_int number)"

definition round_to_significant :: "pyfloat \<Rightarrow> error + int" where
  "round_to_significant number =
     (if f_lt number 100 then py_round number
      else
        let num_str = replace_chr 0x2C [] (format_comma_0f number);
            num_length = length num_str
        in if f_ge number 100000 then
             (let magnitude = (10::int) ^ (num_length - 3)
              in case py_truediv number magnitude of
                   Inl e \<Rightarrow> Inl e
                 | Inr q \<Rightarrow> (case py_round q of Inl e \<Rightarrow> Inl e | Inr k \<Rightarrow> Inr (k * magnitude)))
           else if f_ge number 1000 then
             (case py_truediv number 1000 of
                Inl e \<Rightarrow> Inl e
              | Inr q \<Rightarrow> (case py_round q of Inl e \<Rightarrow> Inl e | Inr k \<Rightarrow> Inr (k * 1000)))
           else
             (case py_truediv number 100 of
                Inl e \<Rightarrow> Inl e
              | Inr q \<Rightarrow> (case py_round q of Inl e \<Rightarrow> Inl e | Inr k \<Rightarrow> Inr (k * 100))))"

definition jeder_vierte :: ustring where
  "jeder_vierte = u ''jeder Vierte''"

definition die_haelfte :: ustring where
  "die_haelfte = u ''die H'' @ [0xE4] @ u ''lfte''"

definition drei_von_vier :: ustring where
  "drei_von_vier = u ''drei von vier''"

definition fast_alle :: ustring where
  "fast_alle = u ''fast alle''"

definition mehr_als_die_haelfte :: ustring where
  "mehr_als_die_haelfte = u ''mehr als die H'' @ [0xE4] @ u ''lfte''"

definition wenige :: ustring where
  "wenige = u ''wenige''"

text \<open>\<open>simplify_percentage\<close> takes \<open>match.group(1)\<close>, the numeral of the match.\<close>

definition simplify_percentage :: "ustring \<Rightarrow> error + ustring" where
  "simplify_percentage group1 =
     (case py_float (replace_chr 0x2C [0x2E] group1) of
        Inl e \<Rightarrow> Inl e
      | Inr number \<Rightarrow>
          if f_eq number 25 then Inr jeder_vierte
          else if f_eq number 50 then Inr die_haelfte
          else if f_eq number 75 then Inr drei_von_vier
          else if f_ge number 90 then Inr fast_alle
          else if f_gt number 50 then Inr mehr_als_die_haelfte
          else if f_le number 15 then Inr wenige
          else (case py_round number of
                  Inl e \<Rightarrow> Inl e
                | Inr k \<Rightarrow> Inr (u ''etwa '' @ str_int k @ u '' Prozent'')))"

definition looks_like_year :: "ustring \<Rightarrow> nat \<Rightarrow> int \<Rightarrow> bool" where
  "looks_like_year text pos number =
     (let before_text = strip (take pos text)
      in if endswith before_text (u ''Jahr '') \<or> endswith before_text (u ''Jahre '') then False
         else if 1900 \<le> number \<and> number \<le> 2100 then True
         else False)"

text \<open>
  \<open>simplify_regular_number\<close> takes the two groups of the match (the pattern has
  two groups, so \<open>suffix\<close> is always \<open>match.group(2)\<close>). Only ValueError is caught
  by its \<open>try\<close>; any other exception leaves the function.
\<close>

definition simplify_regular_number :: "ustring \<Rightarrow> ustring \<Rightarrow> ustring \<Rightarrow> nat \<Rightarrow> error + ustring" where
  "simplify_regular_number text number_str suffix text_pos =
     (case convert_german_number number_str of
        Inl e \<Rightarrow> (if e = ValueError then Inr number_str else Inl e)
      | Inr number \<Rightarrow>
          (case round_to_significant number of
             Inl e \<Rightarrow> (if e = ValueError then Inr number_str else Inl e)
           | Inr rounded \<Rightarrow>
               (case py_round number of
                  Inl e \<Rightarrow> (if e = ValueError then Inr number_str else Inl e)
                | Inr n \<Rightarrow>
                    (let is_count = \<not> looks_like_year text text_pos n
                     in Inr (u ''etwa '' @ format_german_number rounded is_count
                             @ (if suffix \<noteq> [] then u '' '' @ suffix else []))))))"

definition months :: "ustring list" where
  "months = [u ''Januar'', u ''Februar'', u ''M'' @ [0xE4] @ u ''rz'', u ''April'', u ''Mai'',
     u ''Juni'', u ''Juli'', u ''August'', u ''September'', u ''Oktober'', u ''November'',
     u ''Dezember'']"

text \<open>The pattern \<open>\d+\.\<close> of \<open>is_part_of_date\<close> and the pattern \<open>\d+\<close> of \<open>is_year\<close>.\<close>

definition day_re :: re where
  "day_re = Seq (plus Digit) (Chr 0x2E)"

definition digits_re :: re where
  "digits_re = plus Digit"

definition is_part_of_date :: "ustring \<Rightarrow> nat \<Rightarrow> bool" where
  "is_part_of_date text pos =
     (if 0 < pos \<and> isspace (py_slice text (int pos - 2) (int pos))
         \<and> re_match day_re (py_slice text (int pos) (int pos + 4)) \<noteq> None
      then True
      else
        let next_words = split (py_slice text (int pos) (int pos + 50))
        in if next_words = [] then False
           else next_words ! 0 \<in> set months
                \<or> (1 < length next_words \<and> next_words ! 1 \<in> set months))"

definition is_year :: "ustring \<Rightarrow> nat \<Rightarrow> error + bool" where
  "is_year text pos =
     (let before_text = strip (take pos text)
      in case re_match digits_re (drop pos text) of
           None \<Rightarrow> Inr False
         | Some number \<Rightarrow>
             if endswith before_text (u ''Jahr'') then Inr True
             else if length number = 4
                     \<and> (startswith number (u ''19'') \<or> startswith number (u ''20''))
             then (let before_words = split before_text
                   in case last_item before_words of
                        Inl e \<Rightarrow> Inl e
                      | Inr w \<Rightarrow> Inr (list_ex (\<lambda>month. contains w month) months))
             else Inr False)"

subsection \<open>The two passes of \<open>simplify_numbers\<close>\<close>

text \<open>
  The percentage pattern \<open>(\d+(?:,\d+)?)\s*Prozent\<close>: segment 0 is group 1.
\<close>

definition percent_pattern :: "re list" where
  "percent_pattern =
     [Seq (plus Digit) (opt (Seq (Chr 0x2C) (plus Digit))),
      Seq (Star Space) (lit (u ''Prozent''))]"

text \<open>
  The numeral pattern \<open>(\d+(?:\.\d+)*(?:,\d+)?)\s*((?:Euro|[A-Za-z...]+)?)\<close>, the
  class holding the ASCII letters and the seven German letters: segment 0 is
  group 1, segment 1 the whitespace, segment 2 is group 2.
\<close>

definition unit_letters :: "(uchar \<times> uchar) list" where
  "unit_letters = [(0x41, 0x5A), (0x61, 0x7A), (0xC4, 0xC4), (0xE4, 0xE4), (0xD6, 0xD6),
     (0xF6, 0xF6), (0xDC, 0xDC), (0xFC, 0xFC), (0xDF, 0xDF)]"

definition number_pattern :: "re list" where
  "number_pattern =
     [Seq (plus Digit) (Seq (Star (Seq (Chr 0x2E) (plus Digit))) (opt (Seq (Chr 0x2C) (plus Digit)))),
      Star Space,
      opt (Alt (lit (u ''Euro'')) (plus (Class unit_letters)))]"

definition piece :: "rmatch \<Rightarrow> nat \<Rightarrow> ustring" where
  "piece m i = m_pieces m ! i"

text \<open>
  \<open>re.sub(pattern, repl, text)\<close> with a function \<open>repl\<close>: the text between the
  matches is kept, every match is replaced by what \<open>repl\<close> returns for it, and an
  exception of \<open>repl\<close> leaves \<open>re.sub\<close>.
\<close>

fun sub_loop :: "(rmatch \<Rightarrow> error + ustring) \<Rightarrow> ustring \<Rightarrow> rmatch list \<Rightarrow> nat \<Rightarrow> ustring
    \<Rightarrow> error + ustring" where
  "sub_loop repl text [] last_end result = Inr (result @ drop last_end text)"
| "sub_loop repl text (m # ms) last_end result =
     (case repl m of
        Inl e \<Rightarrow> Inl e
      | Inr r \<Rightarrow>
          sub_loop repl text ms (m_end m)
            (result @ py_slice text (int last_end) (int (m_start m)) @ r))"

definition re_sub :: "re list \<Rightarrow> (rmatch \<Rightarrow> error + ustring) \<Rightarrow> ustring \<Rightarrow> error + ustring" where
  "re_sub pattern repl text = sub_loop repl text (finditer pattern 0 text) 0 []"

text \<open>
  The body of the loop over the numeral matches: what is appended to \<open>result\<close> for
  the match \<open>m\<close>. \<open>is_year\<close> is only called when \<open>is_part_of_date\<close> is false.
\<close>

definition rewrite_token :: "ustring \<Rightarrow> rmatch \<Rightarrow> error + ustring" where
  "rewrite_token text m =
     (let start = m_start m
      in if is_part_of_date text start then Inr (group0 m)
         else (case is_year text start of
                 Inl e \<Rightarrow> Inl e
               | Inr True \<Rightarrow> Inr (group0 m)
               | Inr False \<Rightarrow> simplify_regular_number text (piece m 0) (piece m 2) start))"

fun number_loop :: "ustring \<Rightarrow> rmatch list \<Rightarrow> nat \<Rightarrow> ustring \<Rightarrow> error + ustring" where
  "number_loop text [] last_end result = Inr (result @ drop last_end text)"
| "number_loop text (m # ms) last_end result =
     (let start = m_start m;
          result1 = result @ py_slice text (int last_end) (int start)
      in case rewrite_token text m of
           Inl e \<Rightarrow> Inl e
         | Inr r \<Rightarrow> number_loop text ms (m_end m) (result1 @ r))"

definition quantity_pass :: "ustring \<Rightarrow> error + ustring" where
  "quantity_pass text = number_loop text (finditer number_pattern 0 text) 0 []"

definition simplify_numbers :: "ustring \<Rightarrow> error + ustring" where
  "simplify_numbers raw_text =
     (case re_sub percent_pattern (\<lambda>m. simplify_percentage (piece m 0)) raw_text of
        Inl e \<Rightarrow> Inl e
      | Inr text \<Rightarrow> quantity_pass text)"

section \<open>The span structure of an output\<close>

text \<open>
  The invariant of the data model, stated on its own: the matches lie in the text
  one after the other without overlap, each covering exactly its matched text
  (\<open>spans_ok\<close>), and a text is woven from the untouched gaps between the matches
  and one replacement per match (\<open>weave\<close>).
\<close>

fun spans_ok :: "ustring \<Rightarrow> nat \<Rightarrow> rmatch list \<Rightarrow> bool" where
  "spans_ok text last_end [] = True"
| "spans_ok text last_end (m # ms) =
     (last_end \<le> m_start m \<and> m_start m \<le> m_end m \<and> m_end m \<le> length text
      \<and> group0 m = take (m_end m - m_start m) (drop (m_start m) text)
      \<and> spans_ok text (m_end m) ms)"

fun weave :: "ustring \<Rightarrow> nat \<Rightarrow> (rmatch \<times> ustring) list \<Rightarrow> ustring" where
  "weave text last_end [] = drop last_end text"
| "weave text last_end ((m, r) # xs) =
     take (m_start m - last_end) (drop last_end text) @ r @ weave text (m_end m) xs"

section \<open>Properties\<close>

subsection \<open>Slices\<close>

lemma py_slice_nat: "py_slice s (int a) (int b) = take (b - a) (drop a s)"
  by (cases "a < length s") (auto simp: py_slice_def clip_def Let_def min_def)

subsection \<open>What a match consumes\<close>

lemma in_parts_Seq:
  "(p, r) \<in> set (parts (Seq a b) s) \<longleftrightarrow>
     (\<exists>p1 s1 p2. (p1, s1) \<in> set (parts a s) \<and> (p2, r) \<in> set (parts b s1) \<and> p = p1 @ p2)"
  apply (simp add: image_iff split_beta)
  apply force
  done

lemma in_parts_Star:
  "(p, r) \<in> set (parts (Star a) s) \<longleftrightarrow>
     (p = [] \<and> r = s) \<or>
     (\<exists>p1 s1 p2. (p1, s1) \<in> set (parts a s) \<and> length s1 < length s
        \<and> (p2, r) \<in> set (parts (Star a) s1) \<and> p = p1 @ p2)"
  apply (subst parts.simps(8))
  apply (simp add: image_iff split_beta del: parts.simps)
  apply (force simp del: parts.simps)
  done

lemma one_split: "(p, r) \<in> set (one P s) \<Longrightarrow> s = p @ r"
  by (cases s) (auto split: if_splits)

lemma parts_split: "(p, r) \<in> set (parts re s) \<Longrightarrow> s = p @ r"
proof (induction re s arbitrary: p r rule: parts.induct)
  case (6 a b s)
  from "6.prems" obtain p1 s1 p2 where a: "(p1, s1) \<in> set (parts a s)"
    and b: "(p2, r) \<in> set (parts b s1)" and p: "p = p1 @ p2"
    unfolding in_parts_Seq by blast
  from "6.IH"(1) [OF a] have "s = p1 @ s1" .
  moreover from "6.IH"(2) [OF a refl b] have "s1 = p2 @ r" .
  ultimately show ?case using p by simp
next
  case (8 a s)
  from "8.prems" consider "p = []" "r = s"
    | p1 s1 p2 where "(p1, s1) \<in> set (parts a s)" "length s1 < length s"
        "(p2, r) \<in> set (parts (Star a) s1)" "p = p1 @ p2"
    unfolding in_parts_Star [of p r a s] by blast
  then show ?case
  proof cases
    case 1
    then show ?thesis by simp
  next
    case 2
    from "8.IH"(1) [OF 2(1)] have "s = p1 @ s1" .
    moreover from "8.IH"(2) [OF 2(1) refl 2(2) 2(3)] have "s1 = p2 @ r" .
    ultimately show ?thesis using 2(4) by simp
  qed
qed (auto dest: one_split)

lemma match_groups_split:
  "(ps, r) \<in> set (match_groups rs s) \<Longrightarrow> s = concat ps @ r \<and> length ps = length rs"
proof (induction rs arbitrary: s ps r)
  case Nil
  then show ?case by simp
next
  case (Cons a rs)
  from Cons.prems obtain p s1 qs where a: "(p, s1) \<in> set (parts a s)"
    and b: "(qs, r) \<in> set (match_groups rs s1)" and p: "ps = p # qs"
    by (simp add: image_iff split_beta) force
  from parts_split [OF a] Cons.IH [OF b] p show ?case by simp
qed

subsection \<open>Rounding\<close>

lemma round_half_even_nearest:
  "\<bar>of_int (round_half_even v) - v\<bar> < 1 / 2
   \<or> (\<bar>of_int (round_half_even v) - v\<bar> = 1 / 2 \<and> even (round_half_even v))"
proof -
  define f where "f = \<lfloor>v\<rfloor>"
  define d where "d = v - of_int f"
  have d: "0 \<le> d" "d < 1" unfolding d_def f_def by linarith+
  have v: "v = of_int f + d" unfolding d_def by simp
  consider "d < 1/2" | "1/2 < d" | "d = 1/2" "even f" | "d = 1/2" "odd f" by fastforce
  then show ?thesis
  proof cases
    case 1
    then have "round_half_even v = f" by (simp add: round_half_even_def Let_def f_def d_def)
    with 1 d v show ?thesis by simp
  next
    case 2
    then have "round_half_even v = f + 1" by (simp add: round_half_even_def Let_def f_def d_def)
    with 2 d v show ?thesis by simp
  next
    case 3
    then have "round_half_even v = f" by (simp add: round_half_even_def Let_def f_def d_def)
    with 3 d v show ?thesis by simp
  next
    case 4
    then have "round_half_even v = f + 1" by (simp add: round_half_even_def Let_def f_def d_def)
    with 4 d v show ?thesis by simp
  qed
qed

text \<open>
  C5: \<open>round_to_significant\<close> maps 324620 to 325000, 1897 to 2000, 150 to 200 and 42
  to 42 (the integer arguments are the floats of the same value: comparison,
  division and rounding give the same results for them).
\<close>

theorem round_to_significant_examples:
  "round_to_significant (Finite 324620) = Inr 325000
   \<and> round_to_significant (Finite 1897) = Inr 2000
   \<and> round_to_significant (Finite 150) = Inr 200
   \<and> round_to_significant (Finite 42) = Inr 42"
  by code_simp

text \<open>
  C6, as the code has it: for a value \<open>v\<close> with \<open>0 \<le> v < 100\<close>,
  \<open>round_to_significant\<close> returns an integer nearest to \<open>v\<close>, and where \<open>v\<close> lies
  halfway between two integers it returns the even one.
\<close>

theorem small_value_rounds_half_even:
  assumes "0 \<le> v" and "v < 100"
  shows "\<exists>k. round_to_significant (Finite v) = Inr k
           \<and> (\<bar>of_int k - v\<bar> < 1 / 2 \<or> (\<bar>of_int k - v\<bar> = 1 / 2 \<and> even k))"
  using assms round_half_even_nearest [of v] by (simp add: round_to_significant_def)

theorem small_value_rounds_half_even_witness:
  "(0::rat) \<le> 5 / 2 \<and> (5 / 2 :: rat) < 100
   \<and> (\<exists>k. round_to_significant (Finite (5 / 2)) = Inr k
          \<and> (\<bar>of_int k - 5 / 2\<bar> < (1 / 2 :: rat) \<or> (\<bar>of_int k - 5 / 2\<bar> = (1 / 2 :: rat) \<and> even k)))"
proof -
  have h0: "(0::rat) \<le> 5 / 2" and h1: "(5 / 2 :: rat) < 100" by simp_all
  from small_value_rounds_half_even [OF h0 h1] h0 h1 show ?thesis by blast
qed

text \<open>
  C6 as stated fails: the tie 2.5 is rounded to 2, not away from zero to 3.
\<close>

theorem tie_rounds_to_even_counterexample:
  "round_to_significant (Finite (5 / 2)) = Inr 2
   \<and> round_to_significant (Finite (5 / 2)) \<noteq> Inr 3"
  by code_simp

subsection \<open>Percentages\<close>

lemma star_digit_shape:
  "(p, r) \<in> set (parts (Star Digit) s) \<Longrightarrow> list_all is_decimal p"
proof (induction s arbitrary: p r)
  case Nil
  then show ?case by (subst (asm) in_parts_Star) auto
next
  case (Cons c cs)
  from Cons.prems consider "p = []"
    | p1 s1 p2 where "(p1, s1) \<in> set (parts Digit (c # cs))"
        "(p2, r) \<in> set (parts (Star Digit) s1)" "p = p1 @ p2"
    by (subst (asm) in_parts_Star) blast
  then show ?case
  proof cases
    case 1
    then show ?thesis by simp
  next
    case 2
    from 2(1) have "p1 = [c]" "s1 = cs" "is_decimal c" by (auto split: if_splits)
    with Cons.IH 2(2,3) show ?thesis by simp
  qed
qed

lemma plus_digit_shape:
  assumes "(p, r) \<in> set (parts (plus Digit) s)"
  shows "p \<noteq> [] \<and> list_all is_decimal p"
proof -
  from assms obtain p1 s1 p2 where a: "(p1, s1) \<in> set (parts Digit s)"
    and b: "(p2, r) \<in> set (parts (Star Digit) s1)" and p: "p = p1 @ p2"
    unfolding plus_def in_parts_Seq by blast
  from a obtain c where "p1 = [c]" "is_decimal c" by (cases s) (auto split: if_splits)
  with star_digit_shape [OF b] p show ?thesis by simp
qed

lemma percent_numeral_shape:
  assumes "(p, r) \<in> set (parts (Seq (plus Digit) (opt (Seq (Chr 0x2C) (plus Digit)))) s)"
  shows "\<exists>ds es. ds \<noteq> [] \<and> list_all is_decimal ds \<and> list_all is_decimal es
           \<and> (p = ds \<and> es = [] \<or> p = ds @ 0x2C # es \<and> es \<noteq> [])"
proof -
  from assms obtain ds s1 q where a: "(ds, s1) \<in> set (parts (plus Digit) s)"
    and b: "(q, r) \<in> set (parts (opt (Seq (Chr 0x2C) (plus Digit))) s1)" and p: "p = ds @ q"
    unfolding in_parts_Seq by blast
  note d = plus_digit_shape [OF a]
  from b consider "q = []" | "(q, r) \<in> set (parts (Seq (Chr 0x2C) (plus Digit)) s1)"
    by (auto simp: opt_def simp del: parts.simps(6))
  then show ?thesis
  proof cases
    case 1
    with d p show ?thesis by auto
  next
    case 2
    then obtain c s2 es where c: "(c, s2) \<in> set (parts (Chr 0x2C) s1)"
      and e: "(es, r) \<in> set (parts (plus Digit) s2)" and q: "q = c @ es"
      unfolding in_parts_Seq by blast
    from c have "c = [0x2C]" by (cases s1) (auto split: if_splits)
    with plus_digit_shape [OF e] d p q show ?thesis by auto
  qed
qed

lemma not_decimal_comma_point: "\<not> is_decimal 0x2C" "\<not> is_decimal 0x2E"
  by (simp_all add: is_decimal_def nd_bases_def in_run_def)

lemma digits_no_sep:
  "list_all is_decimal ds \<Longrightarrow> replace_chr 0x2C [0x2E] ds = ds
     \<and> takeWhile (\<lambda>c. c \<noteq> 0x2E) ds = ds \<and> dropWhile (\<lambda>c. c \<noteq> 0x2E) ds = []"
proof (induction ds)
  case Nil
  then show ?case by (simp add: replace_chr_def)
next
  case (Cons d ds)
  then have "d \<noteq> 0x2C" "d \<noteq> 0x2E" using not_decimal_comma_point by auto
  with Cons show ?case by (simp add: replace_chr_def)
qed

lemma replace_chr_append:
  "replace_chr c t (xs @ ys) = replace_chr c t xs @ replace_chr c t ys"
  by (simp add: replace_chr_def)

lemma percent_numeral_parses:
  assumes "ds \<noteq> []" and "list_all is_decimal ds" and "list_all is_decimal es"
    and "p = ds \<and> es = [] \<or> p = ds @ 0x2C # es \<and> es \<noteq> []"
  shows "\<exists>N. py_float (replace_chr 0x2C [0x2E] p) = Inr N"
proof -
  note a = digits_no_sep [OF assms(2)] and b = digits_no_sep [OF assms(3)]
  from assms(4) show ?thesis
  proof
    assume "p = ds \<and> es = []"
    with assms(1,2) show ?thesis by (simp add: py_float_def Let_def a)
  next
    assume c: "p = ds @ 0x2C # es \<and> es \<noteq> []"
    have n: "\<forall>x \<in> set ds. x \<noteq> 0x2E"
      using a by (simp add: takeWhile_eq_all_conv)
    have "replace_chr 0x2C [0x2E] (0x2C # es) = 0x2E # replace_chr 0x2C [0x2E] es"
      by (simp add: replace_chr_def)
    then have r: "replace_chr 0x2C [0x2E] p = ds @ 0x2E # es"
      using c by (simp add: replace_chr_append a b)
    have t: "takeWhile (\<lambda>c. c \<noteq> 0x2E) (ds @ 0x2E # es) = ds"
      using n by (simp add: takeWhile_append2)
    have d: "dropWhile (\<lambda>c. c \<noteq> 0x2E) (ds @ 0x2E # es) = 0x2E # es"
      using n by (simp add: dropWhile_append2)
    show ?thesis using assms(1,2,3) by (simp add: py_float_def Let_def r t d)
  qed
qed

lemma finditer_pieces:
  "m \<in> set (finditer rs pos s) \<Longrightarrow> \<exists>t. match_at rs t = Some (m_pieces m)"
proof (induction rs pos s rule: finditer.induct)
  case (1 rs pos s)
  show ?case
  proof (cases "match_at rs s")
    case None
    with "1.prems" have "s \<noteq> []" and "m \<in> set (finditer rs (pos + 1) (tl s))"
      by (subst (asm) finditer.simps, simp split: if_splits)+
    with "1.IH"(1) [OF None] show ?thesis by blast
  next
    case (Some ps)
    define n where "n = length (concat ps)"
    define m0 where "m0 = \<lparr>m_start = pos, m_end = pos + n, m_pieces = ps\<rparr>"
    from "1.prems" Some have "m = m0 \<or> (s \<noteq> [] \<and> m \<in> set (finditer rs (pos + max 1 n) (drop (max 1 n) s)))"
      by (subst (asm) finditer.simps) (auto simp: Let_def n_def m0_def split: if_splits)
    then show ?thesis
    proof
      assume "m = m0"
      with Some show ?thesis by (auto simp: m0_def)
    next
      assume a: "s \<noteq> [] \<and> m \<in> set (finditer rs (pos + max 1 n) (drop (max 1 n) s))"
      with "1.IH"(2) [OF Some n_def m0_def] show ?thesis by blast
    qed
  qed
qed

lemma percent_match_parses:
  assumes "match_at percent_pattern t = Some ps"
  shows "\<exists>N. py_float (replace_chr 0x2C [0x2E] (ps ! 0)) = Inr N"
proof -
  from assms obtain r xs where "match_groups percent_pattern t = (ps, r) # xs"
    by (auto simp: match_at_def split: list.splits)
  then have "(ps, r) \<in> set (match_groups percent_pattern t)" by simp
  then obtain p s1 qs where
    a: "(p, s1) \<in> set (parts (Seq (plus Digit) (opt (Seq (Chr 0x2C) (plus Digit)))) t)"
    and p: "ps = p # qs"
    unfolding percent_pattern_def match_groups.simps
    by (simp add: image_iff split_beta del: parts.simps) force
  from percent_numeral_shape [OF a] obtain ds es where
    "ds \<noteq> []" "list_all is_decimal ds" "list_all is_decimal es"
    "p = ds \<and> es = [] \<or> p = ds @ 0x2C # es \<and> es \<noteq> []" by blast
  from percent_numeral_parses [OF this] p show ?thesis by simp
qed


lemma percentage_of_value:
  assumes "py_float (replace_chr 0x2C [0x2E] g) = Inr N"
  shows "(f_eq N 25 \<longrightarrow> simplify_percentage g = Inr jeder_vierte)
       \<and> (f_eq N 50 \<longrightarrow> simplify_percentage g = Inr die_haelfte)
       \<and> (f_eq N 75 \<longrightarrow> simplify_percentage g = Inr drei_von_vier)
       \<and> (f_ge N 90 \<longrightarrow> simplify_percentage g = Inr fast_alle)
       \<and> (f_gt N 50 \<and> f_lt N 90 \<and> \<not> f_eq N 75 \<longrightarrow>
            simplify_percentage g = Inr mehr_als_die_haelfte)
       \<and> (f_le N 15 \<longrightarrow> simplify_percentage g = Inr wenige)
       \<and> (f_gt N 15 \<and> f_lt N 50 \<and> \<not> f_eq N 25 \<longrightarrow>
            (\<exists>x. N = Finite x \<and>
               simplify_percentage g
                 = Inr (u ''etwa '' @ str_int (round_half_even x) @ u '' Prozent'')))"
  using assms by (cases N) (auto simp: simplify_percentage_def f_gt_def f_ge_def)

text \<open>
  C4: the numeral of every percentage match has a value \<open>N\<close> (its parse cannot
  fail), and the replacement is "jeder Vierte" for 25, "die Haelfte" (a-umlaut) for
  50, "drei von vier" for 75, "fast alle" from 90 on, "mehr als die Haelfte" between
  50 and 90 except 75, "wenige" up to 15, and otherwise "etwa k Prozent" with \<open>k\<close>
  the value rounded to an integer.
\<close>

theorem percentage_mapping:
  assumes "m \<in> set (finditer percent_pattern 0 text)"
  shows "\<exists>N. py_float (replace_chr 0x2C [0x2E] (piece m 0)) = Inr N
       \<and> (f_eq N 25 \<longrightarrow> simplify_percentage (piece m 0) = Inr jeder_vierte)
       \<and> (f_eq N 50 \<longrightarrow> simplify_percentage (piece m 0) = Inr die_haelfte)
       \<and> (f_eq N 75 \<longrightarrow> simplify_percentage (piece m 0) = Inr drei_von_vier)
       \<and> (f_ge N 90 \<longrightarrow> simplify_percentage (piece m 0) = Inr fast_alle)
       \<and> (f_gt N 50 \<and> f_lt N 90 \<and> \<not> f_eq N 75 \<longrightarrow>
            simplify_percentage (piece m 0) = Inr mehr_als_die_haelfte)
       \<and> (f_le N 15 \<longrightarrow> simplify_percentage (piece m 0) = Inr wenige)
       \<and> (f_gt N 15 \<and> f_lt N 50 \<and> \<not> f_eq N 25 \<longrightarrow>
            (\<exists>x. N = Finite x \<and>
               simplify_percentage (piece m 0)
                 = Inr (u ''etwa '' @ str_int (round_half_even x) @ u '' Prozent'')))"
proof -
  from finditer_pieces [OF assms] obtain t where
    "match_at percent_pattern t = Some (m_pieces m)" by blast
  from percent_match_parses [OF this] obtain N where
    n: "py_float (replace_chr 0x2C [0x2E] (piece m 0)) = Inr N" by (auto simp: piece_def)
  from percentage_of_value [OF n] n show ?thesis by blast
qed

theorem percentage_mapping_witness:
  "\<lparr>m_start = 0, m_end = 10, m_pieces = [u ''20'', u '' Prozent'']\<rparr>
     \<in> set (finditer percent_pattern 0 (u ''20 Prozent''))
   \<and> py_float (replace_chr 0x2C [0x2E] (u ''20'')) = Inr (Finite 20)
   \<and> f_gt (Finite 20) 15 \<and> f_lt (Finite 20) 50 \<and> \<not> f_eq (Finite 20) 25
   \<and> simplify_percentage (u ''20'') = Inr (u ''etwa 20 Prozent'')"
proof -
  define m where "m = \<lparr>m_start = 0, m_end = 10, m_pieces = [u ''20'', u '' Prozent'']\<rparr>"
  have h: "m \<in> set (finditer percent_pattern 0 (u ''20 Prozent''))"
    unfolding m_def by code_simp
  have p: "piece m 0 = u ''20''" unfolding m_def by code_simp
  have v: "py_float (replace_chr 0x2C [0x2E] (u ''20'')) = Inr (Finite 20)"
    by code_simp
  have a: "f_gt (Finite 20) 15 \<and> f_lt (Finite 20) 50 \<and> \<not> f_eq (Finite 20) 25"
    by (simp add: f_gt_def)
  have e: "u ''etwa '' @ str_int (round_half_even 20) @ u '' Prozent'' = u ''etwa 20 Prozent''"
    by code_simp
  from percentage_mapping [OF h] obtain N where
    n: "py_float (replace_chr 0x2C [0x2E] (piece m 0)) = Inr N"
    and i: "f_gt N 15 \<and> f_lt N 50 \<and> \<not> f_eq N 25 \<longrightarrow>
            (\<exists>x. N = Finite x \<and>
               simplify_percentage (piece m 0)
                 = Inr (u ''etwa '' @ str_int (round_half_even x) @ u '' Prozent''))"
    by blast
  from n v p have "N = Finite 20" by simp
  with i a p e have "simplify_percentage (u ''20'') = Inr (u ''etwa 20 Prozent'')" by auto
  with h v a show ?thesis unfolding m_def by simp
qed

subsection \<open>End to end\<close>

text \<open>
  C7: "324.620,22 Euro wurden gespendet." becomes "etwa 325.000 Euro wurden
  gespendet.": the suffix "Euro" stays and the decimal part disappears in the
  rounding.
\<close>

theorem euro_example:
  "simplify_numbers (u ''324.620,22 Euro wurden gespendet.'')
     = Inr (u ''etwa 325.000 Euro wurden gespendet.'')"
  by code_simp

text \<open>
  C1 fails on the code: a text that starts with a four-digit numeral beginning
  with 19 or 20 makes \<open>is_year\<close> read the last element of an empty word list, and
  the IndexError leaves \<open>simplify_numbers\<close>.
\<close>

theorem leading_year_raises:
  "simplify_numbers (u ''2024'') = Inl IndexError"
  by code_simp

text \<open>
  C3 fails on the code: the numeral after "Jahre " is simplified as a quantity and
  is written with the thousands separator, so its is-count flag is true.
\<close>

theorem numeral_after_jahre_is_grouped:
  "simplify_numbers (u ''Jahre 5000'') = Inr (u ''Jahre etwa 5.000'')
   \<and> looks_like_year (u ''Jahre 5000'') 6 5000 = False"
  by code_simp

subsection \<open>Texts without digits\<close>

lemma parts_plus_digit_none:
  "s = [] \<or> \<not> is_decimal (hd s) \<Longrightarrow> parts (Seq (plus Digit) r) s = []"
  by (cases s) (auto simp: plus_def)

lemma match_at_number_none:
  "s = [] \<or> \<not> is_decimal (hd s) \<Longrightarrow> match_at number_pattern s = None"
  by (simp add: match_at_def number_pattern_def parts_plus_digit_none del: parts.simps)

lemma match_at_percent_none:
  "s = [] \<or> \<not> is_decimal (hd s) \<Longrightarrow> match_at percent_pattern s = None"
  by (simp add: match_at_def percent_pattern_def parts_plus_digit_none del: parts.simps)

lemma finditer_no_match:
  assumes "\<And>t. t = [] \<or> \<not> is_decimal (hd t) \<Longrightarrow> match_at rs t = None"
  shows "\<forall>c \<in> set s. \<not> is_decimal c \<Longrightarrow> finditer rs pos s = []"
proof (induction s arbitrary: pos)
  case Nil
  then show ?case using assms [of "[]"] by (subst finditer.simps) simp
next
  case (Cons c cs)
  have "match_at rs (c # cs) = None" using Cons.prems assms [of "c # cs"] by simp
  then show ?case using Cons by (subst finditer.simps) simp
qed

text \<open>
  C10, as the code has it: a text without any Unicode decimal digit (a character of
  category Nd, which is what \<open>\d\<close> matches) is returned unchanged.
\<close>

theorem digit_free_text_unchanged:
  assumes "list_all (\<lambda>c. \<not> is_decimal c) s"
  shows "simplify_numbers s = Inr s"
proof -
  from assms have d: "\<forall>c \<in> set s. \<not> is_decimal c" by (simp add: list_all_iff)
  have p: "finditer percent_pattern 0 s = []"
    using finditer_no_match [of percent_pattern s 0] match_at_percent_none d by blast
  have n: "finditer number_pattern 0 s = []"
    using finditer_no_match [of number_pattern s 0] match_at_number_none d by blast
  show ?thesis by (simp add: simplify_numbers_def re_sub_def quantity_pass_def p n)
qed

theorem digit_free_text_unchanged_witness:
  "list_all (\<lambda>c. \<not> is_decimal c) (u ''Guten Tag'')
   \<and> simplify_numbers (u ''Guten Tag'') = Inr (u ''Guten Tag'')"
proof -
  have h: "list_all (\<lambda>c. \<not> is_decimal c) (u ''Guten Tag'')" by code_simp
  from digit_free_text_unchanged [OF h] h show ?thesis by blast
qed

text \<open>
  C10 as stated fails: the text consisting of the Arabic-Indic digit three (U+0663)
  has no ASCII digit and is rewritten to "etwa 3".
\<close>

theorem non_ascii_digit_counterexample:
  "list_all (\<lambda>c. \<not> is_ascii_digit c) [0x663]
   \<and> simplify_numbers [0x663] = Inr (u ''etwa 3'')
   \<and> simplify_numbers [0x663] \<noteq> Inr [0x663]"
  by code_simp



subsection \<open>Gaps and replacements\<close>

lemma spans_ok_mono: "spans_ok text b ms \<Longrightarrow> a \<le> b \<Longrightarrow> spans_ok text a ms"
  by (cases ms) auto

lemma match_at_split:
  assumes "match_at rs s = Some ps"
  shows "\<exists>r. s = concat ps @ r"
proof -
  from assms obtain r xs where "match_groups rs s = (ps, r) # xs"
    by (auto simp: match_at_def split: list.splits)
  then have "(ps, r) \<in> set (match_groups rs s)" by simp
  from match_groups_split [OF this] show ?thesis by blast
qed

lemma finditer_spans:
  "pos \<le> length text \<Longrightarrow> s = drop pos text \<Longrightarrow> spans_ok text pos (finditer rs pos s)"
proof (induction rs pos s rule: finditer.induct)
  case (1 rs pos s)
  show ?case
  proof (cases "match_at rs s")
    case None
    show ?thesis
    proof (cases "s = []")
      case True
      with None show ?thesis by (subst finditer.simps) simp
    next
      case False
      with "1.prems" have lt: "pos < length text" by auto
      have "tl s = drop (pos + 1) text" using "1.prems" by (simp add: drop_Suc tl_drop)
      with "1.IH"(1) [OF None False] lt
      have "spans_ok text (pos + 1) (finditer rs (pos + 1) (tl s))" by simp
      then have "spans_ok text pos (finditer rs (pos + 1) (tl s))"
        by (rule spans_ok_mono) simp
      with None False show ?thesis by (subst finditer.simps) simp
    qed
  next
    case (Some ps)
    define n where "n = length (concat ps)"
    define m where "m = \<lparr>m_start = pos, m_end = pos + n, m_pieces = ps\<rparr>"
    from match_at_split [OF Some] obtain r where s: "s = concat ps @ r" by blast
    have n_le: "pos + n \<le> length text"
      using s "1.prems" n_def
      by (metis add.commute le_add1 length_append length_drop nat_le_linear le_diff_conv ordered_cancel_comm_monoid_diff_class.le_diff_conv2)
    have g: "group0 m = take (m_end m - m_start m) (drop (m_start m) text)"
      using s "1.prems" by (simp add: m_def group0_def n_def)
    show ?thesis
    proof (cases "s = []")
      case True
      with Some g n_le show ?thesis
        by (subst finditer.simps) (simp add: Let_def m_def n_def)
    next
      case False
      with "1.prems" have lt: "pos < length text" by auto
      have le: "pos + max 1 n \<le> length text" using lt n_le by (simp add: max_def)
      have d: "drop (max 1 n) s = drop (pos + max 1 n) text"
        using "1.prems" by (simp add: add.commute)
      from "1.IH"(2) [OF Some n_def m_def False le d]
      have "spans_ok text (pos + max 1 n) (finditer rs (pos + max 1 n) (drop (max 1 n) s))" .
      then have "spans_ok text (pos + n) (finditer rs (pos + max 1 n) (drop (max 1 n) s))"
        by (rule spans_ok_mono) simp
      with Some False g n_le show ?thesis
        by (subst finditer.simps) (simp add: Let_def m_def n_def)
    qed
  qed
qed

lemma weave_identity:
  "spans_ok text a ms \<Longrightarrow> weave text a (zip ms (map group0 ms)) = drop a text"
proof (induction ms arbitrary: a)
  case Nil
  then show ?case by simp
next
  case (Cons m ms)
  then have o: "a \<le> m_start m" "m_start m \<le> m_end m" "m_end m \<le> length text"
    and g: "group0 m = take (m_end m - m_start m) (drop (m_start m) text)"
    and r: "spans_ok text (m_end m) ms" by simp_all
  have 1: "drop (m_start m) text = take (m_end m - m_start m) (drop (m_start m) text) @ drop (m_end m) text"
    using o by (metis append_take_drop_id drop_drop le_add_diff_inverse2)
  have 2: "drop a text = take (m_start m - a) (drop a text) @ drop (m_start m) text"
    using o by (metis append_take_drop_id drop_drop le_add_diff_inverse2)
  show ?case using Cons.IH [OF r] g 1 2 by simp
qed

lemma number_loop_weave:
  "number_loop text ms a result = Inr out \<Longrightarrow>
   \<exists>reps. list_all2 (\<lambda>m r. rewrite_token text m = Inr r) ms reps
        \<and> out = result @ weave text a (zip ms reps)"
proof (induction ms arbitrary: a result)
  case Nil
  then show ?case by simp
next
  case (Cons m ms)
  from Cons.prems obtain r where r: "rewrite_token text m = Inr r"
    and l: "number_loop text ms (m_end m)
              ((result @ py_slice text (int a) (int (m_start m))) @ r) = Inr out"
    by (auto simp: Let_def split: sum.splits)
  from Cons.IH [OF l] obtain reps where
    a: "list_all2 (\<lambda>m r. rewrite_token text m = Inr r) ms reps"
    and o: "out = ((result @ py_slice text (int a) (int (m_start m))) @ r)
                   @ weave text (m_end m) (zip ms reps)" by blast
  have "list_all2 (\<lambda>m r. rewrite_token text m = Inr r) (m # ms) (r # reps)"
    using a r by simp
  moreover have "out = result @ weave text a (zip (m # ms) (r # reps))"
    using o by (simp add: py_slice_nat)
  ultimately show ?case by blast
qed

text \<open>
  C8: whenever the quantity pass returns, its output is the untouched gaps between
  the numeral matches and one replacement per match, woven in the original order;
  the text itself is the same gaps woven with the matched texts, and the matches
  lie in the text in order, without overlap, each over exactly its matched text. So
  every character outside a matched span is kept as it is.
\<close>

theorem quantity_pass_weaves_gaps_and_replacements:
  assumes "quantity_pass text = Inr out"
  shows "\<exists>reps. list_all2 (\<lambda>m r. rewrite_token text m = Inr r)
                  (finditer number_pattern 0 text) reps
           \<and> out = weave text 0 (zip (finditer number_pattern 0 text) reps)
           \<and> text = weave text 0 (zip (finditer number_pattern 0 text)
                                      (map group0 (finditer number_pattern 0 text)))
           \<and> spans_ok text 0 (finditer number_pattern 0 text)"
proof -
  have s: "spans_ok text 0 (finditer number_pattern 0 text)"
    by (rule finditer_spans) simp_all
  from weave_identity [OF s]
  have i: "text = weave text 0 (zip (finditer number_pattern 0 text)
                                   (map group0 (finditer number_pattern 0 text)))" by simp
  from number_loop_weave [of "text" _ 0 "[]" out] assms
  obtain reps where "list_all2 (\<lambda>m r. rewrite_token text m = Inr r)
                  (finditer number_pattern 0 text) reps"
    "out = weave text 0 (zip (finditer number_pattern 0 text) reps)"
    by (auto simp: quantity_pass_def)
  with s i show ?thesis by blast
qed


theorem quantity_pass_weaves_gaps_and_replacements_witness:
  "quantity_pass (u ''ab 12 cd'') = Inr (u ''ab etwa 12 cd'')
   \<and> (\<exists>reps. list_all2 (\<lambda>m r. rewrite_token (u ''ab 12 cd'') m = Inr r)
                  (finditer number_pattern 0 (u ''ab 12 cd'')) reps
           \<and> u ''ab etwa 12 cd''
               = weave (u ''ab 12 cd'') 0 (zip (finditer number_pattern 0 (u ''ab 12 cd'')) reps)
           \<and> u ''ab 12 cd''
               = weave (u ''ab 12 cd'') 0 (zip (finditer number_pattern 0 (u ''ab 12 cd''))
                                      (map group0 (finditer number_pattern 0 (u ''ab 12 cd''))))
           \<and> spans_ok (u ''ab 12 cd'') 0 (finditer number_pattern 0 (u ''ab 12 cd'')))"
proof -
  have h: "quantity_pass (u ''ab 12 cd'') = Inr (u ''ab etwa 12 cd'')"
    by code_simp
  from quantity_pass_weaves_gaps_and_replacements [OF h] h show ?thesis by blast
qed

subsection \<open>Numerals that look like years\<close>

lemma strip_last_not_space: "strip s \<noteq> [] \<Longrightarrow> \<not> is_space (last (strip s))"
proof -
  assume a: "strip s \<noteq> []"
  define t where "t = dropWhile is_space (rev (dropWhile is_space s))"
  have s: "strip s = rev t" by (simp add: strip_def t_def)
  with a have "t \<noteq> []" by simp
  then have "\<not> is_space (hd t)" unfolding t_def by (rule hd_dropWhile)
  moreover have "last (strip s) = hd t" using s \<open>t \<noteq> []\<close> by (simp add: last_rev)
  ultimately show ?thesis by simp
qed

lemma not_endswith_space: "is_space c \<Longrightarrow> \<not> endswith (strip s) (xs @ [c])"
proof
  assume c: "is_space c" and e: "endswith (strip s) (xs @ [c])"
  from e have d: "drop (length (strip s) - length (xs @ [c])) (strip s) = xs @ [c]"
    by (simp add: endswith_def)
  then have n: "strip s \<noteq> []" by auto
  have "last (strip s) = last (xs @ [c])"
    using d by (metis last_drop drop_eq_Nil2 snoc_eq_iff_butlast linorder_not_le)
  then have "last (strip s) = c" by simp
  with strip_last_not_space [OF n] c show False by simp
qed

lemma looks_like_year_range:
  "looks_like_year text pos n = (1900 \<le> n \<and> n \<le> 2100)"
proof -
  have s: "is_space 0x20" by (simp add: is_space_def)
  have "u ''Jahr '' = u ''Jahr'' @ [0x20]" and "u ''Jahre '' = u ''Jahre'' @ [0x20]"
    by (simp_all add: u_def)
  then have "\<not> endswith (strip (take pos text)) (u ''Jahr '')"
    and "\<not> endswith (strip (take pos text)) (u ''Jahre '')"
    using not_endswith_space [OF s] by metis+
  then show ?thesis by (simp add: looks_like_year_def)
qed

text \<open>
  C2, as the code has it: a numeral token of the quantity pass whose value, rounded
  to an integer, lies in [1900, 2100], and which neither \<open>is_part_of_date\<close> nor
  \<open>is_year\<close> classifies as a date or a year, is not passed through. It is rewritten
  to "etwa", the rounded value without thousands separators (the is-count flag is
  false), and the suffix after one space when there is one.
\<close>

theorem year_valued_quantity_is_rewritten_ungrouped:
  assumes "m \<in> set (finditer number_pattern 0 text)"
    and "\<not> is_part_of_date text (m_start m)"
    and "is_year text (m_start m) = Inr False"
    and "convert_german_number (piece m 0) = Inr number"
    and "round_to_significant number = Inr rounded"
    and "py_round number = Inr n"
    and "1900 \<le> n" and "n \<le> 2100"
  shows "rewrite_token text m
           = Inr (u ''etwa '' @ str_int rounded
                  @ (if piece m 2 \<noteq> [] then u '' '' @ piece m 2 else []))"
  using assms
  by (simp add: rewrite_token_def simplify_regular_number_def looks_like_year_range
      format_german_number_def)

theorem year_valued_quantity_is_rewritten_ungrouped_witness:
  "\<lparr>m_start = 9, m_end = 24, m_pieces = [u ''2018'', u '' '', u ''Ereignisse'']\<rparr>
      \<in> set (finditer number_pattern 0 (u ''Es waren 2018 Ereignisse''))
   \<and> \<not> is_part_of_date (u ''Es waren 2018 Ereignisse'') 9
   \<and> is_year (u ''Es waren 2018 Ereignisse'') 9 = Inr False
   \<and> convert_german_number (u ''2018'') = Inr (Finite 2018)
   \<and> round_to_significant (Finite 2018) = Inr 2000
   \<and> py_round (Finite 2018) = Inr 2018
   \<and> rewrite_token (u ''Es waren 2018 Ereignisse'')
        \<lparr>m_start = 9, m_end = 24, m_pieces = [u ''2018'', u '' '', u ''Ereignisse'']\<rparr>
       = Inr (u ''etwa 2000 Ereignisse'')"
proof -
  define m where "m = \<lparr>m_start = 9, m_end = 24, m_pieces = [u ''2018'', u '' '', u ''Ereignisse'']\<rparr>"
  define t where "t = u ''Es waren 2018 Ereignisse''"
  have h1: "m \<in> set (finditer number_pattern 0 t)" unfolding m_def t_def by code_simp
  have h2: "\<not> is_part_of_date t (m_start m)" unfolding m_def t_def by code_simp
  have h3: "is_year t (m_start m) = Inr False" unfolding m_def t_def by code_simp
  have h4: "convert_german_number (piece m 0) = Inr (Finite 2018)" unfolding m_def by code_simp
  have h5: "round_to_significant (Finite 2018) = Inr 2000" by code_simp
  have h6: "py_round (Finite 2018) = Inr 2018" by code_simp
  have e: "u ''etwa '' @ str_int 2000 @ (if piece m 2 \<noteq> [] then u '' '' @ piece m 2 else [])
             = u ''etwa 2000 Ereignisse''" unfolding m_def by code_simp
  have p: "piece m 0 = u ''2018''" "m_start m = 9" unfolding m_def by code_simp+
  from year_valued_quantity_is_rewritten_ungrouped [OF h1 h2 h3 h4 h5 h6] e
  have "rewrite_token t m = Inr (u ''etwa 2000 Ereignisse'')" by simp
  with h1 h2 h3 h4 h5 h6 p show ?thesis unfolding m_def t_def by simp
qed

text \<open>
  C2 as stated fails: in "Es waren 2018 Ereignisse" the token 2018 has a value in
  [1900, 2100], the text before it does not end in "Jahr " or "Jahre ", and it is
  rewritten to "etwa 2000 Ereignisse" instead of being kept.
\<close>

theorem year_valued_token_counterexample:
  "finditer number_pattern 0 (u ''Es waren 2018 Ereignisse'')
     = [\<lparr>m_start = 9, m_end = 24, m_pieces = [u ''2018'', u '' '', u ''Ereignisse'']\<rparr>]
   \<and> convert_german_number (u ''2018'') = Inr (Finite 2018)
   \<and> \<not> endswith (take 9 (u ''Es waren 2018 Ereignisse'')) (u ''Jahr '')
   \<and> \<not> endswith (take 9 (u ''Es waren 2018 Ereignisse'')) (u ''Jahre '')
   \<and> rewrite_token (u ''Es waren 2018 Ereignisse'')
        \<lparr>m_start = 9, m_end = 24, m_pieces = [u ''2018'', u '' '', u ''Ereignisse'']\<rparr>
       \<noteq> Inr (u ''2018 Ereignisse'')
   \<and> simplify_numbers (u ''Es waren 2018 Ereignisse'')
       = Inr (u ''Es waren etwa 2000 Ereignisse'')"
  by code_simp


subsection \<open>Days of the month\<close>

text \<open>
  C9 fails on the code: in " 1.5" the token "1.5" has only whitespace before it and
  a full stop and a digit after its first digit. The guard \<open>pos > 0\<close> admits its
  offset 1, but the look-behind \<open>text[pos-2:pos]\<close> is \<open>text[-1:1]\<close> there, the empty
  string, so the token is not a date component and is rewritten to "etwa 15". The
  two-character look-behind also misses a day after a single space later in the
  text: "am 1.5.2024" becomes "am etwa 152.000".
\<close>

theorem day_after_single_space_is_rewritten:
  "finditer number_pattern 0 (u '' 1.5'')
     = [\<lparr>m_start = 1, m_end = 4, m_pieces = [u ''1.5'', [], []]\<rparr>]
   \<and> list_all is_space (take 1 (u '' 1.5''))
   \<and> drop 1 (u '' 1.5'') = u ''1.5''
   \<and> py_slice (u '' 1.5'') (int 1 - 2) (int 1) = []
   \<and> re_match day_re (py_slice (u '' 1.5'') (int 1) (int 1 + 4)) = Some (u ''1.'')
   \<and> \<not> is_part_of_date (u '' 1.5'') 1
   \<and> rewrite_token (u '' 1.5'') \<lparr>m_start = 1, m_end = 4, m_pieces = [u ''1.5'', [], []]\<rparr>
       = Inr (u ''etwa 15'')
   \<and> simplify_numbers (u '' 1.5'') = Inr (u '' etwa 15'')
   \<and> \<not> is_part_of_date (u ''am 1.5.2024'') 3
   \<and> simplify_numbers (u ''am 1.5.2024'') = Inr (u ''am etwa 152.000'')"
  by code_simp

end
